theory Spec2Isabelle
  imports Main
begin

section \<open>JavaScript values, objects and the store\<close>

text \<open>
  The package is written in TypeScript with \<^verbatim>\<open>BaseGuardedRoutes = any\<close>, so the code
  decides by the run-time shape of its values: truthiness (\<^verbatim>\<open>if (routes[pathname])\<close>),
  \<^verbatim>\<open>Array.isArray\<close>, and spreading. Values are therefore modelled as JavaScript values.
  Objects and arrays live in a store and are held by reference, because the merge writes
  into the object it was given and copies references, not contents.

  Scope of the value model: \<^verbatim>\<open>undefined\<close>, \<^verbatim>\<open>null\<close>, booleans, strings (lists of ASCII
  characters), function values (identified by a number), references to plain objects and
  arrays, and the values that every plain object inherits from \<^verbatim>\<open>Object.prototype\<close>
  (\<open>Inherited ''toString''\<close> is the function \<^verbatim>\<open>Object.prototype.toString\<close>,
  \<open>Inherited ''__proto__''\<close> is \<^verbatim>\<open>Object.prototype\<close> itself). Numbers are left out.
\<close>

type_synonym addr = nat

datatype val = Undefined | Null | Bool bool | Str string | Fun nat | Ref addr | Inherited string

type_synonym props = "(string \<times> val) list"

text \<open>
  A plain object is the list of its own enumerable properties in enumeration order
  (the order of \<^verbatim>\<open>for ... in\<close> and of spreading), which for keys that are not array
  indices, as route patterns and category names are, is the order of creation; an array
  is the list of its elements.
\<close>

datatype obj = Obj props | Arr "val list"

fun truthy :: "val \<Rightarrow> bool" where
  "truthy Undefined = False"
| "truthy Null = False"
| "truthy (Bool b) = b"
| "truthy (Str s) = (s \<noteq> [])"
| "truthy (Fun f) = True"
| "truthy (Ref a) = True"
| "truthy (Inherited n) = True"

text \<open>
  The names of the properties of \<^verbatim>\<open>Object.prototype\<close>. A plain object, as an object literal,
  a spread or \<^verbatim>\<open>JSON.parse\<close> builds it, has \<^verbatim>\<open>Object.prototype\<close> as its prototype and reads
  these names when it has no own property of the name. None of them is enumerable.
\<close>

definition object_prototype_names :: "string list" where
  "object_prototype_names =
     [''constructor'', ''__defineGetter__'', ''__defineSetter__'', ''hasOwnProperty'',
      ''__lookupGetter__'', ''__lookupSetter__'', ''isPrototypeOf'',
      ''propertyIsEnumerable'', ''toString'', ''valueOf'', ''__proto__'',
      ''toLocaleString'']"

text \<open>
  \<^verbatim>\<open>o[k]\<close> on a plain object: the value of the own property, else the value inherited
  from \<^verbatim>\<open>Object.prototype\<close>, else \<^verbatim>\<open>undefined\<close>.
\<close>

definition get_prop :: "props \<Rightarrow> string \<Rightarrow> val" where
  "get_prop ps k =
     (case map_of ps k of
        Some v \<Rightarrow> v
      | None \<Rightarrow> if k \<in> set object_prototype_names then Inherited k else Undefined)"

section \<open>The route pattern matcher\<close>

text \<open>\<^verbatim>\<open>pathname.split('/')\<close>: never empty; the empty string gives one empty part.\<close>

fun split :: "string \<Rightarrow> string list" where
  "split [] = [[]]"
| "split (c # cs) =
     (if c = CHR ''/'' then [] # split cs
      else (case split cs of [] \<Rightarrow> [[c]] | p # ps \<Rightarrow> (c # p) # ps))"

text \<open>\<^verbatim>\<open>parts.join('/')\<close>.\<close>

fun join :: "string list \<Rightarrow> string" where
  "join [] = []"
| "join [p] = p"
| "join (p # q # ps) = p @ CHR ''/'' # join (q # ps)"

text \<open>
  The loop \<^verbatim>\<open>for (let i = pathParts.length; i > 0; i--)\<close> of \<^verbatim>\<open>searchMapForRoute\<close>, with
  \<^verbatim>\<open>pathParts.slice(0, i)\<close> as \<open>take i\<close>. The first argument is the loop counter.
\<close>

fun searchLoop :: "nat \<Rightarrow> string list \<Rightarrow> props \<Rightarrow> val" where
  "searchLoop 0 pathParts routes = Undefined"
| "searchLoop (Suc i) pathParts routes =
     (let path = join (take (Suc i) pathParts) in
      if truthy (get_prop routes (path @ ''/*'')) then get_prop routes (path @ ''/*'')
      else searchLoop i pathParts routes)"

text \<open>\<^verbatim>\<open>searchMapForRoute(pathname, routes)\<close> on a table that is a plain object.\<close>

definition searchMapForRoute :: "string \<Rightarrow> props \<Rightarrow> val" where
  "searchMapForRoute pathname routes =
     (if truthy (get_prop routes pathname) then get_prop routes pathname
      else searchLoop (length (split pathname)) (split pathname) routes)"

section \<open>Failures, the store and computations\<close>

text \<open>
  A failure is a thrown exception or a rejected promise: \<open>TypeError\<close> is raised by the
  language itself (reading a property of \<^verbatim>\<open>undefined\<close>, spreading a value that is not
  iterable, calling a value that is not a function), \<open>Thrown v\<close> is a failure raised by
  caller-supplied code. \<open>OutsideModel\<close> marks a run that leaves the modelled fragment of
  JavaScript: an address that is not in the store, an assignment that replaces the
  prototype of an object, or a value of a shape that the declared types
  (\<^verbatim>\<open>Record<string, Record<string,any> | Array<any>>\<close>) exclude and whose behaviour would
  need the prototypes of arrays, strings or functions.
\<close>

datatype error = TypeError | Thrown val | OutsideModel

text \<open>
  The program state: the store, the closure variable \<^verbatim>\<open>mergedApplicationGuardedRoutes\<close> of
  \<^verbatim>\<open>generateGuardedRoutes\<close> (\<open>None\<close> is \<^verbatim>\<open>undefined\<close>), and what \<^verbatim>\<open>console.error\<close> has
  printed.
\<close>

record state =
  heap :: "obj list"
  mergedApplicationGuardedRoutes :: "addr option"
  console :: "error list"

text \<open>
  A computation runs on a state and either fails or returns a value, with the state it
  leaves behind in both cases. An \<^verbatim>\<open>async\<close> function is run to completion: a rejected
  promise and a synchronous throw are the same failure.
\<close>

type_synonym 'a comp = "state \<Rightarrow> (error + 'a) \<times> state"

definition lookup :: "obj list \<Rightarrow> addr \<Rightarrow> obj option" where
  "lookup h a = (if a < length h then Some (h ! a) else None)"

text \<open>A new object or array gets the next free address.\<close>

definition alloc :: "obj \<Rightarrow> obj list \<Rightarrow> addr \<times> obj list" where
  "alloc ob h = (length h, h @ [ob])"

definition read_obj :: "obj list \<Rightarrow> addr \<Rightarrow> error + props" where
  "read_obj h a = (case lookup h a of Some (Obj ps) \<Rightarrow> Inr ps | _ \<Rightarrow> Inl OutsideModel)"

text \<open>
  \<^verbatim>\<open>o[k] = v\<close> on a plain object: an existing property keeps its place, a new one goes
  last.
\<close>

fun set_prop :: "props \<Rightarrow> string \<Rightarrow> val \<Rightarrow> props" where
  "set_prop [] k v = [(k, v)]"
| "set_prop ((k', v') # ps) k v =
     (if k' = k then (k, v) # ps else (k', v') # set_prop ps k v)"

text \<open>\<^verbatim>\<open>Array.isArray(v)\<close>.\<close>

definition isArray :: "obj list \<Rightarrow> val \<Rightarrow> bool" where
  "isArray h v = (case v of
       Ref a \<Rightarrow> (case lookup h a of Some (Arr xs) \<Rightarrow> True | _ \<Rightarrow> False)
     | _ \<Rightarrow> False)"

text \<open>
  \<^verbatim>\<open>...v\<close> inside an array literal: the elements of an array, the characters of a string;
  anything else is not iterable.
\<close>

definition spread_elements :: "obj list \<Rightarrow> val \<Rightarrow> error + val list" where
  "spread_elements h v = (case v of
       Ref a \<Rightarrow> (case lookup h a of
                   Some (Arr xs) \<Rightarrow> Inr xs
                 | Some (Obj ps) \<Rightarrow> Inl TypeError
                 | None \<Rightarrow> Inl OutsideModel)
     | Str s \<Rightarrow> Inr (map (\<lambda>c. Str [c]) s)
     | _ \<Rightarrow> Inl TypeError)"

text \<open>Decimal numerals, for the index keys of an array that is spread into an object.\<close>

function dec :: "nat \<Rightarrow> string" where
  "dec n = (if n < 10 then [char_of (48 + n)] else dec (n div 10) @ [char_of (48 + n mod 10)])"
  by pat_completeness auto
termination
  by (relation "measure (\<lambda>n. n)") auto

definition indexed :: "val list \<Rightarrow> props" where
  "indexed xs = zip (map dec [0..<length xs]) xs"

text \<open>
  \<^verbatim>\<open>...v\<close> inside an object literal: the own enumerable properties of \<open>v\<close>; \<^verbatim>\<open>undefined\<close>,
  \<^verbatim>\<open>null\<close>, booleans and functions contribute none.
\<close>

definition spread_props :: "obj list \<Rightarrow> val \<Rightarrow> error + props" where
  "spread_props h v = (case v of
       Ref a \<Rightarrow> (case lookup h a of
                   Some (Obj ps) \<Rightarrow> Inr ps
                 | Some (Arr xs) \<Rightarrow> Inr (indexed xs)
                 | None \<Rightarrow> Inl OutsideModel)
     | Str s \<Rightarrow> Inr (indexed (map (\<lambda>c. Str [c]) s))
     | _ \<Rightarrow> Inr [])"

text \<open>An object literal defines its properties from left to right.\<close>

definition obj_literal :: "props \<Rightarrow> props" where
  "obj_literal entries = foldl (\<lambda>ps (k, v). set_prop ps k v) [] entries"

section \<open>The route registry merger\<close>

text \<open>
  The right-hand sides of the two assignments in the reducer build a new array or a new
  object; \<open>assign_new\<close> stores it and writes its reference into \<^verbatim>\<open>acc[key]\<close>.
\<close>

definition assign_new :: "addr \<Rightarrow> props \<Rightarrow> string \<Rightarrow> obj \<Rightarrow> state \<Rightarrow> state" where
  "assign_new acc accProps key ob s =
     (case alloc ob (heap s) of
        (a, h) \<Rightarrow> s\<lparr>heap := h[acc := Obj (set_prop accProps key (Ref a))]\<rparr>)"

text \<open>
  An assignment \<^verbatim>\<open>acc[key] = v\<close> creates or updates an own property, with one exception:
  \<^verbatim>\<open>__proto__\<close> is inherited as an accessor, and on an object without an own property of
  that name the assignment does not create one but replaces the prototype of the object.
  Objects with a replaced prototype are outside the model, and so is the run from there.
\<close>

definition sets_prototype :: "props \<Rightarrow> string \<Rightarrow> bool" where
  "sets_prototype accProps key = (key = ''__proto__'' \<and> map_of accProps key = None)"

definition assign :: "addr \<Rightarrow> props \<Rightarrow> string \<Rightarrow> obj \<Rightarrow> unit comp" where
  "assign acc accProps key ob s =
     (if sets_prototype accProps key then (Inl OutsideModel, s)
      else (Inr (), assign_new acc accProps key ob s))"

text \<open>
  The body of \<^verbatim>\<open>for (const key in curr)\<close>:
  \<^verbatim>\<open>
  if (Array.isArray(acc[key])) {
    acc[key] = [...acc[key], ...curr[key]];
  } else if (curr[key]) {
    acc[key] = {...acc[key], ...curr[key]};
  }
  \<close>
  \<open>acc\<close> and \<open>cur\<close> are the addresses of the accumulator \<^verbatim>\<open>acc\<close> and of the fragment \<^verbatim>\<open>curr\<close>.
\<close>

definition mergeKey :: "addr \<Rightarrow> addr \<Rightarrow> string \<Rightarrow> unit comp" where
  "mergeKey acc cur key s =
     (case read_obj (heap s) acc of
        Inl e \<Rightarrow> (Inl e, s)
      | Inr accProps \<Rightarrow>
     (case read_obj (heap s) cur of
        Inl e \<Rightarrow> (Inl e, s)
      | Inr curProps \<Rightarrow>
        if isArray (heap s) (get_prop accProps key) then
          (case spread_elements (heap s) (get_prop accProps key) of
             Inl e \<Rightarrow> (Inl e, s)
           | Inr xs \<Rightarrow>
          (case spread_elements (heap s) (get_prop curProps key) of
             Inl e \<Rightarrow> (Inl e, s)
           | Inr ys \<Rightarrow> assign acc accProps key (Arr (xs @ ys)) s))
        else if truthy (get_prop curProps key) then
          (case spread_props (heap s) (get_prop accProps key) of
             Inl e \<Rightarrow> (Inl e, s)
           | Inr ps \<Rightarrow>
          (case spread_props (heap s) (get_prop curProps key) of
             Inl e \<Rightarrow> (Inl e, s)
           | Inr qs \<Rightarrow> assign acc accProps key (Obj (obj_literal (ps @ qs))) s))
        else (Inr (), s)))"

text \<open>The \<^verbatim>\<open>for ... in\<close> loop over the keys of the fragment.\<close>

fun forIn :: "addr \<Rightarrow> addr \<Rightarrow> string list \<Rightarrow> unit comp" where
  "forIn acc cur [] s = (Inr (), s)"
| "forIn acc cur (key # keys) s =
     (case mergeKey acc cur key s of
        (Inl e, s') \<Rightarrow> (Inl e, s')
      | (Inr u, s') \<Rightarrow> forIn acc cur keys s')"

text \<open>The callback \<^verbatim>\<open>(acc, curr) => { for (const key in curr) {...}; return acc }\<close>.\<close>

definition reducer :: "addr \<Rightarrow> addr \<Rightarrow> addr comp" where
  "reducer acc cur s =
     (case read_obj (heap s) cur of
        Inl e \<Rightarrow> (Inl e, s)
      | Inr curProps \<Rightarrow>
          (case forIn acc cur (map fst curProps) s of
             (Inl e, s') \<Rightarrow> (Inl e, s')
           | (Inr u, s') \<Rightarrow> (Inr acc, s')))"

text \<open>\<^verbatim>\<open>applicationGuardedRoutes.reduce(callback, initValue)\<close>, left to right.\<close>

fun reduce :: "addr list \<Rightarrow> addr \<Rightarrow> addr comp" where
  "reduce [] acc s = (Inr acc, s)"
| "reduce (cur # rest) acc s =
     (case reducer acc cur s of
        (Inl e, s') \<Rightarrow> (Inl e, s')
      | (Inr acc', s') \<Rightarrow> reduce rest acc' s')"

section \<open>The example predicates of the README\<close>

text \<open>
  The README shows how the package is meant to be configured: three predicates, each a
  lookup in one category of the merged configuration, and their conjunction. They are
  modelled on the types the README declares (\<^verbatim>\<open>GuardedRoutes\<close>): a category is a plain
  object, the roles of a route are an array.
\<close>

text \<open>
  A call \<^verbatim>\<open>searchMapForRoute(pathname, routes)\<close> whose table is any value: reading a
  property of \<^verbatim>\<open>undefined\<close> or \<^verbatim>\<open>null\<close> throws, a boolean has no properties.
\<close>

definition searchMapForRouteAt :: "obj list \<Rightarrow> string \<Rightarrow> val \<Rightarrow> error + val" where
  "searchMapForRouteAt h pathname routes = (case routes of
       Ref a \<Rightarrow> (case lookup h a of
                   Some (Obj ps) \<Rightarrow> Inr (searchMapForRoute pathname ps)
                 | _ \<Rightarrow> Inl OutsideModel)
     | Undefined \<Rightarrow> Inl TypeError
     | Null \<Rightarrow> Inl TypeError
     | Bool b \<Rightarrow> Inr (searchMapForRoute pathname [])
     | _ \<Rightarrow> Inl OutsideModel)"

text \<open>\<^verbatim>\<open>s.includes(t)\<close> on strings: \<open>t\<close> occurs in \<open>s\<close>.\<close>

definition string_includes :: "string \<Rightarrow> string \<Rightarrow> bool" where
  "string_includes s t = list_ex (\<lambda>i. take (length t) (drop i s) = t) [0..<Suc (length s)]"

text \<open>
  \<^verbatim>\<open>roles.includes(x)\<close> for a truthy \<open>roles\<close>: membership in an array, occurrence in a
  string; a value without a method \<^verbatim>\<open>includes\<close> throws.
\<close>

definition array_includes :: "obj list \<Rightarrow> val \<Rightarrow> val \<Rightarrow> error + bool" where
  "array_includes h roles x = (case roles of
       Ref a \<Rightarrow> (case lookup h a of
                   Some (Arr xs) \<Rightarrow> Inr (x \<in> set xs)
                 | Some (Obj ps) \<Rightarrow>
                     (case get_prop ps ''includes'' of
                        Fun f \<Rightarrow> Inl OutsideModel
                      | _ \<Rightarrow> Inl TypeError)
                 | None \<Rightarrow> Inl OutsideModel)
     | Str s \<Rightarrow> (case x of Str t \<Rightarrow> Inr (string_includes s t) | _ \<Rightarrow> Inl OutsideModel)
     | _ \<Rightarrow> Inl TypeError)"

text \<open>
  \<^verbatim>\<open>
  const { roleBasedRoutes } = getApplicationGuardedRoutes();
  const roles = searchMapForRoute(pathname, roleBasedRoutes);
  if (!roles) return true;
  return !roles.includes('admin');
  \<close>
\<close>

definition checkRouteForRole :: "addr comp \<Rightarrow> string \<Rightarrow> val comp" where
  "checkRouteForRole getRoutes pathname s =
     (case getRoutes s of
        (Inl e, s') \<Rightarrow> (Inl e, s')
      | (Inr cfg, s') \<Rightarrow>
     (case read_obj (heap s') cfg of
        Inl e \<Rightarrow> (Inl e, s')
      | Inr cfgProps \<Rightarrow>
     (case searchMapForRouteAt (heap s') pathname (get_prop cfgProps ''roleBasedRoutes'') of
        Inl e \<Rightarrow> (Inl e, s')
      | Inr roles \<Rightarrow>
          if \<not> truthy roles then (Inr (Bool True), s')
          else (case array_includes (heap s') roles (Str ''admin'') of
                  Inl e \<Rightarrow> (Inl e, s')
                | Inr b \<Rightarrow> (Inr (Bool (\<not> b)), s')))))"

text \<open>
  \<^verbatim>\<open>
  const { featureFlaggedRoutes } = getApplicationGuardedRoutes();
  const featureFlags = searchMapForRoute(pathname, featureFlaggedRoutes);
  if (!featureFlags) return true;
  return await getFlags(featureFlags);
  \<close>
  \<^verbatim>\<open>getFlags\<close> is the application's flag service, a parameter.
\<close>

definition checkRouteForFeatureFlag ::
    "(val \<Rightarrow> val comp) \<Rightarrow> addr comp \<Rightarrow> string \<Rightarrow> val comp" where
  "checkRouteForFeatureFlag getFlags getRoutes pathname s =
     (case getRoutes s of
        (Inl e, s') \<Rightarrow> (Inl e, s')
      | (Inr cfg, s') \<Rightarrow>
     (case read_obj (heap s') cfg of
        Inl e \<Rightarrow> (Inl e, s')
      | Inr cfgProps \<Rightarrow>
     (case searchMapForRouteAt (heap s') pathname (get_prop cfgProps ''featureFlaggedRoutes'') of
        Inl e \<Rightarrow> (Inl e, s')
      | Inr featureFlags \<Rightarrow>
          if \<not> truthy featureFlags then (Inr (Bool True), s')
          else getFlags featureFlags s')))"

text \<open>
  \<^verbatim>\<open>
  const { specialChecksRoutes } = getApplicationGuardedRoutes();
  const relevantRouteValues = searchMapForRoute(pathname, specialChecksRoutes!);
  if (!relevantRouteValues) return true;
  return relevantRouteValues();
  \<close>
  \<open>callFun f\<close> is what calling the function value \<open>Fun f\<close> without arguments does; what
  calling an inherited function does is not modelled; calling anything else throws.
\<close>

definition checkRouteForSpecialChecks ::
    "(nat \<Rightarrow> val comp) \<Rightarrow> addr comp \<Rightarrow> string \<Rightarrow> val comp" where
  "checkRouteForSpecialChecks callFun getRoutes pathname s =
     (case getRoutes s of
        (Inl e, s') \<Rightarrow> (Inl e, s')
      | (Inr cfg, s') \<Rightarrow>
     (case read_obj (heap s') cfg of
        Inl e \<Rightarrow> (Inl e, s')
      | Inr cfgProps \<Rightarrow>
     (case searchMapForRouteAt (heap s') pathname (get_prop cfgProps ''specialChecksRoutes'') of
        Inl e \<Rightarrow> (Inl e, s')
      | Inr relevantRouteValues \<Rightarrow>
          if \<not> truthy relevantRouteValues then (Inr (Bool True), s')
          else (case relevantRouteValues of
                  Fun f \<Rightarrow> callFun f s'
                | Inherited n \<Rightarrow>
                    (Inl (if n = ''__proto__'' then TypeError else OutsideModel), s')
                | _ \<Rightarrow> (Inl TypeError, s')))))"

text \<open>\<^verbatim>\<open>(await p) && (await q)\<close>: \<open>q\<close> runs only when \<open>p\<close> returned a truthy value.\<close>

definition andAwait :: "val comp \<Rightarrow> val comp \<Rightarrow> val comp" where
  "andAwait p q s =
     (case p s of
        (Inl e, s') \<Rightarrow> (Inl e, s')
      | (Inr a, s') \<Rightarrow> if truthy a then q s' else (Inr a, s'))"

text \<open>
  The composed decision function of the README (the constant of the same name as the
  parameter of \<^verbatim>\<open>generateGuardedRoutes\<close> that it is passed as):
  \<^verbatim>\<open>
  return (
    (await checkRouteForRole(getApplicationGuardedRoutes)(pathname)) &&
    (await checkRouteForFeatureFlag(getApplicationGuardedRoutes)(pathname)) &&
    (await checkRouteForSpecialChecks(getApplicationGuardedRoutes)(pathname))
  );
  \<close>
\<close>

definition isPathAllowedWithGetApplicationGuardedRoutes_readme ::
    "(val \<Rightarrow> val comp) \<Rightarrow> (nat \<Rightarrow> val comp) \<Rightarrow> addr comp \<Rightarrow> string \<Rightarrow> val comp" where
  "isPathAllowedWithGetApplicationGuardedRoutes_readme getFlags callFun getRoutes pathname =
     andAwait
       (andAwait (checkRouteForRole getRoutes pathname)
                 (checkRouteForFeatureFlag getFlags getRoutes pathname))
       (checkRouteForSpecialChecks callFun getRoutes pathname)"

section \<open>generateGuardedRoutes\<close>

text \<open>The part of \<^verbatim>\<open>request.nextUrl\<close> that the package and its rejection handler read.\<close>

record next_url =
  pathname :: string
  searchParams :: string
  host :: string
  protocol :: string

record request =
  nextUrl :: next_url

text \<open>
  \<^verbatim>\<open>GenerateGuardedRoutesParams\<close>. The two caller-supplied functions receive the accessor
  \<^verbatim>\<open>getApplicationGuardedRoutes\<close> as a computation. The array \<^verbatim>\<open>applicationGuardedRoutes\<close> is
  the list of the addresses of the fragments, \<^verbatim>\<open>initValue\<close> the address of the initial
  object.
\<close>

record 'resp params =
  isPathAllowedWithGetApplicationGuardedRoutes :: "addr comp \<Rightarrow> string \<Rightarrow> val comp"
  initValue :: addr
  applicationGuardedRoutes :: "addr list"
  middlewareReject :: "addr comp \<Rightarrow> next_url \<Rightarrow> 'resp comp"

text \<open>
  \<^verbatim>\<open>
  const getApplicationGuardedRoutes = () => {
    if (mergedApplicationGuardedRoutes) return mergedApplicationGuardedRoutes;
    mergedApplicationGuardedRoutes = applicationGuardedRoutes.reduce(..., initValue);
    return mergedApplicationGuardedRoutes;
  };
  \<close>
  The variable is assigned only when \<^verbatim>\<open>reduce\<close> returns.
\<close>

definition getApplicationGuardedRoutes :: "'resp params \<Rightarrow> addr comp" where
  "getApplicationGuardedRoutes P s =
     (case mergedApplicationGuardedRoutes s of
        Some a \<Rightarrow> (Inr a, s)
      | None \<Rightarrow>
          (case reduce (applicationGuardedRoutes P) (initValue P) s of
             (Inl e, s') \<Rightarrow> (Inl e, s')
           | (Inr a, s') \<Rightarrow> (Inr a, s'\<lparr>mergedApplicationGuardedRoutes := Some a\<rparr>)))"

definition isPathAllowed :: "'resp params \<Rightarrow> string \<Rightarrow> val comp" where
  "isPathAllowed P path =
     isPathAllowedWithGetApplicationGuardedRoutes P (getApplicationGuardedRoutes P) path"

text \<open>
  \<^verbatim>\<open>
  const { pathname } = request.nextUrl;
  try {
    if (await isPathAllowed(pathname)) return response;
  } catch (e) {
    console.error('failed on guard', e);
  }
  return middlewareReject(getApplicationGuardedRoutes)(request.nextUrl);
  \<close>
\<close>

definition guardMiddleware :: "'resp params \<Rightarrow> request \<Rightarrow> 'resp \<Rightarrow> 'resp comp" where
  "guardMiddleware P req response s =
     (case isPathAllowed P (pathname (nextUrl req)) s of
        (Inr v, s') \<Rightarrow>
          if truthy v then (Inr response, s')
          else middlewareReject P (getApplicationGuardedRoutes P) (nextUrl req) s'
      | (Inl e, s') \<Rightarrow>
          middlewareReject P (getApplicationGuardedRoutes P) (nextUrl req)
            (s'\<lparr>console := console s' @ [e]\<rparr>))"

section \<open>Configurations used as examples\<close>

text \<open>
  The end-to-end scenario of the specification: the initial value
  \<^verbatim>\<open>{roleBasedRoutes: {}, specialChecksRoutes: {}, featureFlaggedRoutes: {}}\<close> at address 0
  (its three empty categories at 1, 2, 3) and the single fragment
  \<^verbatim>\<open>{roleBasedRoutes: {"/admin/*": ["admin"]}}\<close> at address 4.
\<close>

definition scenario_heap :: "obj list" where
  "scenario_heap =
    [Obj [(''roleBasedRoutes'', Ref 1), (''specialChecksRoutes'', Ref 2),
          (''featureFlaggedRoutes'', Ref 3)],
     Obj [], Obj [], Obj [],
     Obj [(''roleBasedRoutes'', Ref 5)],
     Obj [(''/admin/*'', Ref 6)],
     Arr [Str ''admin'']]"

definition scenario_state :: state where
  "scenario_state = \<lparr>heap = scenario_heap, mergedApplicationGuardedRoutes = None, console = []\<rparr>"

definition scenario_params ::
    "(val \<Rightarrow> val comp) \<Rightarrow> (nat \<Rightarrow> val comp) \<Rightarrow> (addr comp \<Rightarrow> next_url \<Rightarrow> 'resp comp)
       \<Rightarrow> 'resp params" where
  "scenario_params getFlags callFun reject =
     \<lparr>isPathAllowedWithGetApplicationGuardedRoutes =
        isPathAllowedWithGetApplicationGuardedRoutes_readme getFlags callFun,
      initValue = 0,
      applicationGuardedRoutes = [4],
      middlewareReject = reject\<rparr>"

text \<open>
  The configuration of the README: the same initial value, and the fragment
  \<^verbatim>\<open>safePageGuardedRoutes\<close> at address 4 with a role-guarded route, a flagged route, a
  route with a special check (the function \<open>Fun 0\<close>) and a default redirect (\<open>Fun 1\<close>).
\<close>

definition readme_heap :: "obj list" where
  "readme_heap =
    [Obj [(''roleBasedRoutes'', Ref 1), (''specialChecksRoutes'', Ref 2),
          (''featureFlaggedRoutes'', Ref 3)],
     Obj [], Obj [], Obj [],
     Obj [(''roleBasedRoutes'', Ref 5), (''featureFlaggedRoutes'', Ref 7),
          (''specialChecksRoutes'', Ref 9), (''defaultRedirects'', Ref 10)],
     Obj [(''/admin-only-route'', Ref 6)],
     Arr [Str ''admin''],
     Obj [(''/beta-route'', Ref 8)],
     Arr [Str ''betaFeature''],
     Obj [(''/special-route'', Fun 0)],
     Obj [(''/beta-route'', Fun 1)]]"

definition readme_state :: state where
  "readme_state = \<lparr>heap = readme_heap, mergedApplicationGuardedRoutes = None, console = []\<rparr>"

text \<open>
  Parameters over the README configuration. The flag service of the example answers
  \<^verbatim>\<open>false\<close>; the special check of \<^verbatim>\<open>/special-route\<close> answers \<^verbatim>\<open>true\<close>, as in the README;
  the rejection handler answers with the path it was given.
\<close>

definition readme_params :: "(val \<Rightarrow> val comp) \<Rightarrow> string params" where
  "readme_params getFlags =
     \<lparr>isPathAllowedWithGetApplicationGuardedRoutes =
        isPathAllowedWithGetApplicationGuardedRoutes_readme getFlags
          (\<lambda>f s. (Inr (Bool True), s)),
      initValue = 0,
      applicationGuardedRoutes = [4],
      middlewareReject = (\<lambda>getRoutes url s. (Inr (''rejected '' @ pathname url), s))\<rparr>"

definition flags_off :: "val \<Rightarrow> val comp" where
  "flags_off featureFlags s = (Inr (Bool False), s)"

definition flags_down :: "val \<Rightarrow> val comp" where
  "flags_down featureFlags s = (Inl (Thrown (Str ''flag service down'')), s)"

definition request_for :: "string \<Rightarrow> request" where
  "request_for path =
     \<lparr>nextUrl = \<lparr>pathname = path, searchParams = [], host = ''localhost'',
                  protocol = ''http:''\<rparr>\<rparr>"

text \<open>
  The scenario with an initial value that leaves out the optional category
  \<^verbatim>\<open>specialChecksRoutes\<close>, against which the source warns.
\<close>

definition unset_heap :: "obj list" where
  "unset_heap =
    [Obj [(''roleBasedRoutes'', Ref 1), (''featureFlaggedRoutes'', Ref 2)],
     Obj [], Obj [],
     Obj [(''roleBasedRoutes'', Ref 4)],
     Obj [(''/admin/*'', Ref 5)],
     Arr [Str ''admin'']]"

definition unset_state :: state where
  "unset_state = \<lparr>heap = unset_heap, mergedApplicationGuardedRoutes = None, console = []\<rparr>"

definition unset_params :: "string params" where
  "unset_params =
     \<lparr>isPathAllowedWithGetApplicationGuardedRoutes =
        isPathAllowedWithGetApplicationGuardedRoutes_readme flags_off
          (\<lambda>f s. (Inr (Bool True), s)),
      initValue = 0,
      applicationGuardedRoutes = [3],
      middlewareReject = (\<lambda>getRoutes url s. (Inr (''rejected '' @ pathname url), s))\<rparr>"




section \<open>Notions for the properties of the merger\<close>

text \<open>The properties of the plain object at an address (none if there is no such object).\<close>

definition props_at :: "obj list \<Rightarrow> addr \<Rightarrow> props" where
  "props_at h a = (case lookup h a of Some (Obj ps) \<Rightarrow> ps | _ \<Rightarrow> [])"



text \<open>
  \<open>only_writes a s s'\<close>: from \<open>s\<close> to \<open>s'\<close> the store has grown, and every object that was
  in it, except the one at \<open>a\<close>, is as it was.
\<close>

definition only_writes :: "addr \<Rightarrow> state \<Rightarrow> state \<Rightarrow> bool" where
  "only_writes a s s' =
     (length (heap s) \<le> length (heap s') \<and>
      (\<forall>x < length (heap s). x \<noteq> a \<longrightarrow> heap s' ! x = heap s ! x))"


text \<open>
  What the caller can do to an object it holds: any assignment to, or deletion of, its
  properties or elements replaces the object stored at its address.
\<close>

definition overwrite :: "addr \<Rightarrow> obj \<Rightarrow> state \<Rightarrow> state" where
  "overwrite a ob s = s\<lparr>heap := (heap s)[a := ob]\<rparr>"



text \<open>The number that a decimal numeral denotes.\<close>

definition undec :: "string \<Rightarrow> nat" where
  "undec s = foldl (\<lambda>n c. 10 * n + (of_char c - 48)) 0 s"

text \<open>
  The content of the value of a category, one level deep: a sequence with its elements, a
  mapping with its entries, a string, a truthy value that is neither and has no
  enumerable property (\<^verbatim>\<open>true\<close>, a function, an inherited value), or nothing
  (\<^verbatim>\<open>undefined\<close>, \<^verbatim>\<open>null\<close>, \<^verbatim>\<open>false\<close>). \<open>Unspecified\<close> is the content of a dangling
  reference, and the result of the merge rule where it does not apply.
\<close>

datatype category =
  Sequence "val list" | Mapping "string \<rightharpoonup> val" | Text string | Opaque | Absent | Unspecified

definition category_of :: "obj list \<Rightarrow> val \<Rightarrow> category" where
  "category_of h v = (case v of
       Ref a \<Rightarrow> (case lookup h a of
                   Some (Arr xs) \<Rightarrow> Sequence xs
                 | Some (Obj ps) \<Rightarrow> Mapping (map_of ps)
                 | None \<Rightarrow> Unspecified)
     | Str s \<Rightarrow> Text s
     | Undefined \<Rightarrow> Absent
     | Null \<Rightarrow> Absent
     | Bool b \<Rightarrow> if b then Opaque else Absent
     | Fun f \<Rightarrow> Opaque
     | Inherited n \<Rightarrow> Opaque)"



fun entries :: "category \<Rightarrow> (string \<rightharpoonup> val)" where
  "entries (Mapping m) = m"
| "entries (Sequence xs) = map_of (indexed xs)"
| "entries (Text s) = map_of (indexed (map (\<lambda>c. Str [c]) s))"
| "entries _ = Map.empty"





section \<open>Properties of the route pattern matcher\<close>

subsection \<open>Splitting and joining\<close>

lemma split_nonempty: "split s \<noteq> []"
  by (induction s) (auto split: list.splits)

lemma join_split: "join (split s) = s"
proof (induction s)
  case Nil
  then show ?case by simp
next
  case (Cons c cs)
  obtain p ps where sp: "split cs = p # ps"
    using split_nonempty [of cs] by (cases "split cs") auto
  show ?case
  proof (cases "c = CHR ''/''")
    case True
    with Cons sp show ?thesis by simp
  next
    case False
    with Cons sp show ?thesis by (cases ps) auto
  qed
qed

lemma split_append: "split (q @ CHR ''/'' # r) = split q @ split r"
proof (induction q)
  case Nil
  then show ?case by simp
next
  case (Cons c cs)
  obtain p ps where sp: "split cs = p # ps"
    using split_nonempty [of cs] by (cases "split cs") auto
  with Cons show ?case by simp
qed

lemma join_append:
  "xs \<noteq> [] \<Longrightarrow> ys \<noteq> [] \<Longrightarrow> join (xs @ ys) = join xs @ CHR ''/'' # join ys"
proof (induction xs rule: join.induct)
  case 1
  then show ?case by simp
next
  case (2 p)
  then show ?case by (cases ys) auto
next
  case (3 p q ps)
  then show ?case by simp
qed

lemma prefix_key_cases:
  assumes "0 < i" and "i \<le> length (split p)"
  shows "join (take i (split p)) = p \<or> (\<exists>r. p = join (take i (split p)) @ CHR ''/'' # r)"
proof (cases "i = length (split p)")
  case True
  then show ?thesis by (simp add: join_split)
next
  case False
  with assms have lt: "i < length (split p)" by simp
  have "take i (split p) \<noteq> []" using assms lt by auto
  moreover have "drop i (split p) \<noteq> []" using lt by auto
  ultimately have "join (take i (split p) @ drop i (split p))
      = join (take i (split p)) @ CHR ''/'' # join (drop i (split p))"
    by (rule join_append)
  then have "p = join (take i (split p)) @ CHR ''/'' # join (drop i (split p))"
    by (simp add: join_split)
  then show ?thesis by blast
qed

lemma key_of_prefix:
  assumes "p = q @ CHR ''/'' # r"
  shows "\<exists>i. 0 < i \<and> i \<le> length (split p) \<and> join (take i (split p)) = q"
proof -
  have "split p = split q @ split r" using assms by (simp add: split_append)
  then have "take (length (split q)) (split p) = split q" by simp
  then have "join (take (length (split q)) (split p)) = q" by (simp add: join_split)
  moreover have "0 < length (split q)" using split_nonempty [of q] by simp
  moreover have "length (split q) \<le> length (split p)"
    using \<open>split p = split q @ split r\<close> by simp
  ultimately show ?thesis by blast
qed

lemma key_of_whole: "\<exists>i. 0 < i \<and> i \<le> length (split p) \<and> join (take i (split p)) = p"
proof -
  have "0 < length (split p)" using split_nonempty [of p] by simp
  moreover have "join (take (length (split p)) (split p)) = p" by (simp add: join_split)
  ultimately show ?thesis by blast
qed

lemma searchLoop_absent:
  "(\<And>j. 0 < j \<Longrightarrow> j \<le> n \<Longrightarrow> \<not> truthy (get_prop routes (join (take j parts) @ ''/*'')))
   \<Longrightarrow> searchLoop n parts routes = Undefined"
  by (induction n) (simp_all add: Let_def)

lemma searchLoop_longest:
  "0 < i \<Longrightarrow> i \<le> n \<Longrightarrow> truthy (get_prop routes (join (take i parts) @ ''/*''))
   \<Longrightarrow> (\<And>j. i < j \<Longrightarrow> j \<le> n \<Longrightarrow> \<not> truthy (get_prop routes (join (take j parts) @ ''/*'')))
   \<Longrightarrow> searchLoop n parts routes = get_prop routes (join (take i parts) @ ''/*'')"
proof (induction n)
  case 0
  then show ?case by simp
next
  case (Suc n)
  show ?case
  proof (cases "i = Suc n")
    case True
    with Suc.prems show ?thesis by (simp add: Let_def)
  next
    case False
    with Suc.prems have le: "i \<le> n" by simp
    have nt: "\<not> truthy (get_prop routes (join (take (Suc n) parts) @ ''/*''))"
      using Suc.prems(4) [of "Suc n"] le by simp
    have "searchLoop n parts routes = get_prop routes (join (take i parts) @ ''/*'')"
      using Suc.IH [OF Suc.prems(1) le Suc.prems(3)] Suc.prems(4) by simp
    with nt show ?thesis by (simp add: Let_def)
  qed
qed

lemma searchLoop_result:
  "searchLoop n parts routes = Undefined \<or>
   (\<exists>i. 0 < i \<and> i \<le> n \<and> truthy (get_prop routes (join (take i parts) @ ''/*'')) \<and>
        searchLoop n parts routes = get_prop routes (join (take i parts) @ ''/*''))"
proof (induction n)
  case 0
  then show ?case by simp
next
  case (Suc n)
  show ?case
  proof (cases "truthy (get_prop routes (join (take (Suc n) parts) @ ''/*''))")
    case True
    then have "searchLoop (Suc n) parts routes = get_prop routes (join (take (Suc n) parts) @ ''/*'')"
      by (simp add: Let_def)
    with True show ?thesis by blast
  next
    case False
    then have "searchLoop (Suc n) parts routes = searchLoop n parts routes"
      by (simp add: Let_def)
    with Suc show ?thesis by (metis le_SucI)
  qed
qed

lemma searchLoop_found:
  "0 < i \<Longrightarrow> i \<le> n \<Longrightarrow> truthy (get_prop routes (join (take i parts) @ ''/*''))
   \<Longrightarrow> truthy (searchLoop n parts routes)"
proof (induction n)
  case 0
  then show ?case by simp
next
  case (Suc n)
  show ?case
  proof (cases "truthy (get_prop routes (join (take (Suc n) parts) @ ''/*''))")
    case True
    then show ?thesis by (simp add: Let_def)
  next
    case False
    with Suc.prems have "i \<noteq> Suc n" by auto
    with Suc.prems have "i \<le> n" by simp
    with Suc False show ?thesis by (simp add: Let_def)
  qed
qed

lemma wildcard_key_not_inherited: "x @ ''/*'' \<notin> set object_prototype_names"
proof
  assume "x @ ''/*'' \<in> set object_prototype_names"
  moreover have "\<forall>n \<in> set object_prototype_names. last n \<noteq> CHR ''*''"
    by (simp add: object_prototype_names_def)
  ultimately have "last (x @ ''/*'') \<noteq> CHR ''*''" by blast
  then show False by simp
qed

lemma get_prop_wildcard:
  "get_prop routes (x @ ''/*'')
     = (case map_of routes (x @ ''/*'') of Some v \<Rightarrow> v | None \<Rightarrow> Undefined)"
  by (simp add: get_prop_def wildcard_key_not_inherited split: option.splits)

lemma wildcard_single:
  assumes "truthy v"
  shows "searchMapForRoute p [(w @ ''/*'', v)] =
     (if p = w @ ''/*'' then v
      else if p \<in> set object_prototype_names then Inherited p
      else if p = w \<or> (\<exists>r. p = w @ CHR ''/'' # r) then v else Undefined)"
proof -
  let ?T = "[(w @ ''/*'', v)]"
  have get: "\<And>k. get_prop ?T k =
      (if k = w @ ''/*'' then v
       else if k \<in> set object_prototype_names then Inherited k else Undefined)"
    by (simp add: get_prop_def)
  have getw: "\<And>x. get_prop ?T (x @ ''/*'') = (if x = w then v else Undefined)"
    by (simp add: get_prop_wildcard)
  show ?thesis
  proof (cases "p = w @ ''/*''")
    case True
    with assms show ?thesis by (simp add: searchMapForRoute_def get)
  next
    case False
    show ?thesis
    proof (cases "p \<in> set object_prototype_names")
      case True
      with False show ?thesis by (simp add: searchMapForRoute_def get)
    next
      case own: False
      with False have ex: "searchMapForRoute p ?T = searchLoop (length (split p)) (split p) ?T"
        by (simp add: searchMapForRoute_def get)
      show ?thesis
      proof (cases "p = w \<or> (\<exists>r. p = w @ CHR ''/'' # r)")
        case True
        then obtain i where i: "0 < i" "i \<le> length (split p)" "join (take i (split p)) = w"
          using key_of_whole [of p] key_of_prefix [of p w] by blast
        have "truthy (get_prop ?T (join (take i (split p)) @ ''/*''))"
          using i(3) assms by (simp add: getw)
        then have t: "truthy (searchLoop (length (split p)) (split p) ?T)"
          using searchLoop_found [OF i(1) i(2)] by blast
        have "searchLoop (length (split p)) (split p) ?T = v"
          using searchLoop_result [of "length (split p)" "split p" ?T] t
          by (auto simp: getw split: if_splits)
        with ex True False own show ?thesis by simp
      next
        case nomatch: False
        have "searchLoop (length (split p)) (split p) ?T = Undefined"
        proof (rule searchLoop_absent)
          fix j assume j: "0 < j" "j \<le> length (split p)"
          have "join (take j (split p)) \<noteq> w"
            using prefix_key_cases [OF j] nomatch by auto
          then show "\<not> truthy (get_prop ?T (join (take j (split p)) @ ''/*''))"
            by (simp add: getw)
        qed
        with ex nomatch False own show ?thesis by simp
      qed
    qed
  qed
qed

lemmas lookup_defs =
  searchMapForRoute_def get_prop_def object_prototype_names_def numeral_eq_Suc

subsection \<open>Precedence of the exact entry\<close>

text \<open>
  Claim C3, as the code has it. The test \<^verbatim>\<open>if (routes[pathname])\<close> is a test of
  truthiness: a path whose exact entry holds a truthy value gets that value, whatever
  wildcard entries the table has besides.
\<close>

theorem exact_match_precedence:
  assumes "map_of routes path = Some v" and "truthy v"
  shows "searchMapForRoute path routes = v"
  using assms by (simp add: searchMapForRoute_def get_prop_def)

text \<open>The table of the specification: \<^verbatim>\<open>/a/b\<close> (exact) and \<^verbatim>\<open>/a/*\<close> (wildcard).\<close>

theorem exact_match_precedence_witness:
  "searchMapForRoute ''/a/b'' [(''/a/b'', Str ''exact''), (''/a/*'', Str ''wildcard'')]
     = Str ''exact''"
  using exact_match_precedence
    [of "[(''/a/b'', Str ''exact''), (''/a/*'', Str ''wildcard'')]" "''/a/b''" "Str ''exact''"]
  by simp

text \<open>
  Claim C3 as stated fails for an exact entry that holds a falsy value: the entry
  \<^verbatim>\<open>/a/b\<close> is a key of the table and holds \<^verbatim>\<open>false\<close>, and the lookup returns the value of
  the wildcard \<^verbatim>\<open>/a/*\<close>.
\<close>

theorem exact_falsy_entry_counterexample:
  "map_of [(''/a/b'', Bool False), (''/a/*'', Bool True)] ''/a/b'' = Some (Bool False) \<and>
   searchMapForRoute ''/a/b'' [(''/a/b'', Bool False), (''/a/*'', Bool True)] = Bool True"
  by (simp add: lookup_defs)

subsection \<open>The longest prefix wins\<close>

text \<open>
  Claim C2, as the code has it. The exact read \<^verbatim>\<open>routes[pathname]\<close> comes first, and it
  reads an own entry or, for the name of a property of \<^verbatim>\<open>Object.prototype\<close>, the inherited
  value. When what it reads is not truthy, the loop tests the keys
  \<open>join (take i (split path)) @ ''/*''\<close> from \<open>i = length (split path)\<close> down to \<open>1\<close>, and
  the result is the value of the greatest \<open>i\<close> whose key holds a truthy value.
\<close>

theorem longest_prefix_wins:
  assumes "\<not> truthy (get_prop routes path)"
    and "0 < i" and "i \<le> length (split path)"
    and "truthy (get_prop routes (join (take i (split path)) @ ''/*''))"
    and "\<forall>j. i < j \<and> j \<le> length (split path) \<longrightarrow>
           \<not> truthy (get_prop routes (join (take j (split path)) @ ''/*''))"
  shows "searchMapForRoute path routes
           = get_prop routes (join (take i (split path)) @ ''/*'')"
proof -
  have "searchLoop (length (split path)) (split path) routes
          = get_prop routes (join (take i (split path)) @ ''/*'')"
    using assms(2-5) by (intro searchLoop_longest) auto
  with assms(1) show ?thesis by (simp add: searchMapForRoute_def)
qed

text \<open>
  The table of the specification, \<^verbatim>\<open>/a/*\<close> and \<^verbatim>\<open>/a/b/*\<close>. For \<^verbatim>\<open>/a/b/c\<close> (four parts,
  the first empty) the key \<^verbatim>\<open>/a/b/c/*\<close> is absent and \<^verbatim>\<open>/a/b/*\<close> (three parts) wins over
  \<^verbatim>\<open>/a/*\<close>; for \<^verbatim>\<open>/a/b/c/d\<close> the keys \<^verbatim>\<open>/a/b/c/d/*\<close> and \<^verbatim>\<open>/a/b/c/*\<close> are absent and
  \<^verbatim>\<open>/a/b/*\<close> wins again.
\<close>

theorem longest_prefix_wins_witness:
  "searchMapForRoute ''/a/b/c'' [(''/a/*'', Str ''A''), (''/a/b/*'', Str ''B'')] = Str ''B'' \<and>
   searchMapForRoute ''/a/b/c/d'' [(''/a/*'', Str ''A''), (''/a/b/*'', Str ''B'')] = Str ''B''"
proof -
  let ?T = "[(''/a/*'', Str ''A''), (''/a/b/*'', Str ''B'')]"
  have len: "length (split ''/a/b/c'') = 4" "length (split ''/a/b/c/d'') = 5" by simp_all
  have far1: "\<forall>j. 3 < j \<and> j \<le> length (split ''/a/b/c'') \<longrightarrow>
           \<not> truthy (get_prop ?T (join (take j (split ''/a/b/c'')) @ ''/*''))"
  proof (intro allI impI)
    fix j assume "3 < j \<and> j \<le> length (split ''/a/b/c'')"
    then have "j = 4" using len by arith
    then show "\<not> truthy (get_prop ?T (join (take j (split ''/a/b/c'')) @ ''/*''))"
      by (simp add: lookup_defs)
  qed
  have far2: "\<forall>j. 3 < j \<and> j \<le> length (split ''/a/b/c/d'') \<longrightarrow>
           \<not> truthy (get_prop ?T (join (take j (split ''/a/b/c/d'')) @ ''/*''))"
  proof (intro allI impI)
    fix j assume "3 < j \<and> j \<le> length (split ''/a/b/c/d'')"
    then have "j = 4 \<or> j = 5" using len by arith
    then show "\<not> truthy (get_prop ?T (join (take j (split ''/a/b/c/d'')) @ ''/*''))"
      by (auto simp: lookup_defs)
  qed
  have "searchMapForRoute ''/a/b/c'' ?T = Str ''B''"
    using longest_prefix_wins [of ?T "''/a/b/c''" 3] far1
    by (simp add: lookup_defs)
  moreover have "searchMapForRoute ''/a/b/c/d'' ?T = Str ''B''"
    using longest_prefix_wins [of ?T "''/a/b/c/d''" 3] far2
    by (simp add: lookup_defs)
  ultimately show ?thesis by (rule conjI)
qed

text \<open>
  Claim C2 as stated fails when the longest matching wildcard holds a falsy value: the
  path has no exact entry, the pattern \<^verbatim>\<open>/a/b/*\<close> is in the table and holds \<^verbatim>\<open>false\<close>, and
  the lookup returns the value of the shorter pattern \<^verbatim>\<open>/a/*\<close>.
\<close>

theorem longest_falsy_wildcard_counterexample:
  "map_of [(''/a/*'', Str ''A''), (''/a/b/*'', Bool False)] ''/a/b/c'' = None \<and>
   map_of [(''/a/*'', Str ''A''), (''/a/b/*'', Bool False)] ''/a/b/*'' = Some (Bool False) \<and>
   searchMapForRoute ''/a/b/c'' [(''/a/*'', Str ''A''), (''/a/b/*'', Bool False)] = Str ''A''"
  by (simp add: lookup_defs)

subsection \<open>Segment boundaries and absence\<close>

text \<open>
  Claim C4, as the code has it, for the paths that are not the name of a property of
  \<^verbatim>\<open>Object.prototype\<close>. A table whose only entry is the wildcard \<open>w @ ''/*''\<close>, holding a
  truthy value, answers exactly the paths that are \<open>w\<close> itself or continue \<open>w\<close> after a
  \<^verbatim>\<open>/\<close> (and the literal path \<open>w @ ''/*''\<close>): \<^verbatim>\<open>/a/*\<close> answers \<^verbatim>\<open>/a\<close>, \<^verbatim>\<open>/a/b\<close> and
  \<^verbatim>\<open>/a/b/c\<close>, not \<^verbatim>\<open>/ab\<close>. And in any table, a path with no exact entry and no entry
  \<open>w @ ''/*''\<close> for any \<open>w\<close> that it is or continues after a \<^verbatim>\<open>/\<close> gets \<^verbatim>\<open>undefined\<close>.
\<close>

theorem wildcard_segments_and_absence:
  "(truthy v \<and> p \<notin> set object_prototype_names \<longrightarrow>
      searchMapForRoute p [(w @ ''/*'', v)] =
        (if p = w @ ''/*'' \<or> p = w \<or> (\<exists>r. p = w @ CHR ''/'' # r) then v else Undefined)) \<and>
   (path \<notin> set object_prototype_names \<and> map_of routes path = None \<and>
    (\<forall>u. path = u \<or> (\<exists>r. path = u @ CHR ''/'' # r) \<longrightarrow>
         map_of routes (u @ ''/*'') = None) \<longrightarrow>
      searchMapForRoute path routes = Undefined)"
proof (intro conjI impI)
  assume a: "truthy v \<and> p \<notin> set object_prototype_names"
  then have "searchMapForRoute p [(w @ ''/*'', v)] =
     (if p = w @ ''/*'' then v
      else if p \<in> set object_prototype_names then Inherited p
      else if p = w \<or> (\<exists>r. p = w @ CHR ''/'' # r) then v else Undefined)"
    by (intro wildcard_single) simp
  with a show "searchMapForRoute p [(w @ ''/*'', v)] =
        (if p = w @ ''/*'' \<or> p = w \<or> (\<exists>r. p = w @ CHR ''/'' # r) then v else Undefined)"
    by auto
next
  assume a: "path \<notin> set object_prototype_names \<and> map_of routes path = None \<and>
    (\<forall>u. path = u \<or> (\<exists>r. path = u @ CHR ''/'' # r) \<longrightarrow>
         map_of routes (u @ ''/*'') = None)"
  have "searchLoop (length (split path)) (split path) routes = Undefined"
  proof (rule searchLoop_absent)
    fix j assume j: "0 < j" "j \<le> length (split path)"
    have "join (take j (split path)) = path \<or>
          (\<exists>r. path = join (take j (split path)) @ CHR ''/'' # r)"
      by (rule prefix_key_cases [OF j])
    then have "map_of routes (join (take j (split path)) @ ''/*'') = None"
      using a by metis
    then show "\<not> truthy (get_prop routes (join (take j (split path)) @ ''/*''))"
      by (simp add: get_prop_wildcard)
  qed
  with a show "searchMapForRoute path routes = Undefined"
    by (simp add: searchMapForRoute_def get_prop_def)
qed

text \<open>The examples of the claim, with the entry \<^verbatim>\<open>/a/*\<close> holding guard data.\<close>

theorem wildcard_segments_and_absence_witness:
  "searchMapForRoute ''/a'' [(''/a/*'', Str ''guard'')] = Str ''guard'' \<and>
   searchMapForRoute ''/a/b'' [(''/a/*'', Str ''guard'')] = Str ''guard'' \<and>
   searchMapForRoute ''/a/b/c'' [(''/a/*'', Str ''guard'')] = Str ''guard'' \<and>
   searchMapForRoute ''/ab'' [(''/a/*'', Str ''guard'')] = Undefined \<and>
   searchMapForRoute ''/z'' [(''/a/*'', Str ''guard'')] = Undefined"
proof -
  let ?T = "[(''/a/*'', Str ''guard'')]"
  have own: "''/a'' \<notin> set object_prototype_names" "''/a/b'' \<notin> set object_prototype_names"
    "''/a/b/c'' \<notin> set object_prototype_names" "''/ab'' \<notin> set object_prototype_names"
    "''/z'' \<notin> set object_prototype_names"
    by (simp_all add: object_prototype_names_def)
  have absent: "\<forall>u. ''/z'' = u \<or> (\<exists>r. ''/z'' = u @ CHR ''/'' # r) \<longrightarrow>
         map_of ?T (u @ ''/*'') = None"
  proof (intro allI impI)
    fix u assume u: "''/z'' = u \<or> (\<exists>r. ''/z'' = u @ CHR ''/'' # r)"
    have "u \<noteq> ''/a''" using u by auto
    then have "u @ ''/*'' \<noteq> ''/a'' @ ''/*''" by (simp only: append_same_eq not_False_eq_True)
    then show "map_of ?T (u @ ''/*'') = None" by simp
  qed
  have "searchMapForRoute ''/a'' ?T = Str ''guard''"
    using wildcard_segments_and_absence [of "Str ''guard''" "''/a''" "''/a''"] own by simp
  moreover have "searchMapForRoute ''/a/b'' ?T = Str ''guard''"
    using wildcard_segments_and_absence [of "Str ''guard''" "''/a/b''" "''/a''"] own by simp
  moreover have "searchMapForRoute ''/a/b/c'' ?T = Str ''guard''"
    using wildcard_segments_and_absence [of "Str ''guard''" "''/a/b/c''" "''/a''"] own by simp
  moreover have "searchMapForRoute ''/ab'' ?T = Undefined"
    using wildcard_segments_and_absence [of "Str ''guard''" "''/ab''" "''/a''"] own by simp
  moreover have "searchMapForRoute ''/z'' ?T = Undefined"
    using wildcard_segments_and_absence [of _ _ _ "''/z''" ?T] absent own by simp
  ultimately show ?thesis by simp
qed

text \<open>
  Claim C4 as stated fails in two ways. A wildcard entry that holds a falsy value is
  passed over: with \<^verbatim>\<open>{"/a/*": false}\<close> the path \<^verbatim>\<open>/a\<close> gets \<^verbatim>\<open>undefined\<close>, as if the entry
  did not match. And a path that is the name of a property of \<^verbatim>\<open>Object.prototype\<close> reads
  the inherited value: in the empty table, \<^verbatim>\<open>constructor\<close> has neither an exact nor a
  wildcard entry and does not get \<^verbatim>\<open>undefined\<close>.
\<close>

theorem wildcard_and_absence_counterexample:
  "searchMapForRoute ''/a'' [(''/a/*'', Bool False)] = Undefined \<and>
   searchMapForRoute ''constructor'' [] = Inherited ''constructor'' \<and>
   Inherited ''constructor'' \<noteq> Undefined"
  by (simp add: lookup_defs)

section \<open>Running the model\<close>

lemmas run_defs =
  isPathAllowed_def isPathAllowedWithGetApplicationGuardedRoutes_readme_def andAwait_def
  checkRouteForRole_def checkRouteForFeatureFlag_def checkRouteForSpecialChecks_def
  getApplicationGuardedRoutes_def reducer_def mergeKey_def assign_def sets_prototype_def
  assign_new_def alloc_def read_obj_def lookup_def isArray_def spread_props_def
  spread_elements_def obj_literal_def get_prop_def object_prototype_names_def
  searchMapForRouteAt_def array_includes_def searchMapForRoute_def numeral_eq_Suc

section \<open>The end-to-end scenario\<close>

text \<open>
  Claim C9. In the scenario of the specification, whatever the flag service, the special
  checks and the rejection handler are, \<^verbatim>\<open>isPathAllowed("/admin/panel")\<close> resolves to
  \<^verbatim>\<open>false\<close> and \<^verbatim>\<open>isPathAllowed("/public")\<close> resolves to \<^verbatim>\<open>true\<close>: on the first access,
  when the merge runs, and on a later access, when the merged configuration is cached.
\<close>

theorem end_to_end_scenario:
  "fst (isPathAllowed (scenario_params getFlags callFun reject) ''/admin/panel'' scenario_state)
     = Inr (Bool False) \<and>
   fst (isPathAllowed (scenario_params getFlags callFun reject) ''/public'' scenario_state)
     = Inr (Bool True) \<and>
   fst (isPathAllowed (scenario_params getFlags callFun reject) ''/public''
          (snd (isPathAllowed (scenario_params getFlags callFun reject) ''/admin/panel''
                  scenario_state)))
     = Inr (Bool True) \<and>
   fst (isPathAllowed (scenario_params getFlags callFun reject) ''/admin/panel''
          (snd (isPathAllowed (scenario_params getFlags callFun reject) ''/public''
                  scenario_state)))
     = Inr (Bool False)"
  by (simp add: run_defs scenario_params_def scenario_state_def scenario_heap_def)

section \<open>The guard evaluator\<close>

lemma outcome_with_state: "(r = (x, snd r)) = (fst r = x)"
  by (cases r) auto

subsection \<open>Short-circuit conjunction\<close>

text \<open>
  Claim C7. The composed decision function of the README runs the role check, then the
  feature-flag check, then the special checks. When the role check returns \<^verbatim>\<open>false\<close>, the
  outcome and the state left behind are those of the role check alone, for every flag
  service \<open>getFlags\<close> and every \<open>callFun\<close>: neither is called. When the role check returns
  \<^verbatim>\<open>true\<close> and the feature-flag check \<^verbatim>\<open>false\<close>, they are those of the feature-flag check,
  for every \<open>callFun\<close>. When all three return \<^verbatim>\<open>true\<close>, the result is \<^verbatim>\<open>true\<close>.
\<close>

theorem short_circuit_conjunction:
  "(let role = checkRouteForRole getRoutes path;
        flag = checkRouteForFeatureFlag getFlags getRoutes path;
        special = checkRouteForSpecialChecks callFun getRoutes path;
        composed =
          isPathAllowedWithGetApplicationGuardedRoutes_readme getFlags callFun getRoutes path
    in (fst (role s) = Inr (Bool False) \<longrightarrow> composed s = role s) \<and>
       (fst (role s) = Inr (Bool True) \<and> fst (flag (snd (role s))) = Inr (Bool False) \<longrightarrow>
          composed s = flag (snd (role s))) \<and>
       (fst (role s) = Inr (Bool True) \<and> fst (flag (snd (role s))) = Inr (Bool True) \<and>
        fst (special (snd (flag (snd (role s))))) = Inr (Bool True) \<longrightarrow>
          composed s = special (snd (flag (snd (role s)))) \<and>
          fst (composed s) = Inr (Bool True)))"
  by (auto simp: Let_def isPathAllowedWithGetApplicationGuardedRoutes_readme_def andAwait_def
      split: prod.splits sum.splits)

text \<open>
  In the README configuration: \<^verbatim>\<open>/admin-only-route\<close> is denied by the role check,
  \<^verbatim>\<open>/beta-route\<close> passes the role check and is denied by the flag check (the flags are
  off), \<^verbatim>\<open>/special-route\<close> passes all three.
\<close>

theorem short_circuit_conjunction_witness:
  "fst (isPathAllowed (readme_params flags_off) ''/admin-only-route'' readme_state)
     = Inr (Bool False) \<and>
   isPathAllowed (readme_params flags_off) ''/admin-only-route'' readme_state
     = checkRouteForRole (getApplicationGuardedRoutes (readme_params flags_off))
         ''/admin-only-route'' readme_state \<and>
   fst (isPathAllowed (readme_params flags_off) ''/beta-route'' readme_state)
     = Inr (Bool False) \<and>
   fst (isPathAllowed (readme_params flags_off) ''/special-route'' readme_state)
     = Inr (Bool True)"
proof -
  let ?g = "getApplicationGuardedRoutes (readme_params flags_off)"
  let ?c = "\<lambda>f s. (Inr (Bool True), s) :: (error + val) \<times> state"
  have ip: "\<And>p. isPathAllowed (readme_params flags_off) p
      = isPathAllowedWithGetApplicationGuardedRoutes_readme flags_off ?c ?g p"
    by (simp add: isPathAllowed_def readme_params_def)
  have r1: "fst (checkRouteForRole ?g ''/admin-only-route'' readme_state) = Inr (Bool False)"
    by (simp add: run_defs readme_params_def readme_state_def readme_heap_def)
  have r2: "fst (checkRouteForRole ?g ''/beta-route'' readme_state) = Inr (Bool True)"
    by (simp add: run_defs readme_params_def readme_state_def readme_heap_def)
  have f2: "fst (checkRouteForFeatureFlag flags_off ?g ''/beta-route''
                   (snd (checkRouteForRole ?g ''/beta-route'' readme_state))) = Inr (Bool False)"
    by (simp add: run_defs flags_off_def readme_params_def readme_state_def readme_heap_def)
  have r3: "fst (checkRouteForRole ?g ''/special-route'' readme_state) = Inr (Bool True)"
    by (simp add: run_defs readme_params_def readme_state_def readme_heap_def)
  have f3: "fst (checkRouteForFeatureFlag flags_off ?g ''/special-route''
                   (snd (checkRouteForRole ?g ''/special-route'' readme_state))) = Inr (Bool True)"
    by (simp add: run_defs flags_off_def readme_params_def readme_state_def readme_heap_def)
  have s3: "fst (checkRouteForSpecialChecks ?c ?g ''/special-route''
                   (snd (checkRouteForFeatureFlag flags_off ?g ''/special-route''
                      (snd (checkRouteForRole ?g ''/special-route'' readme_state)))))
              = Inr (Bool True)"
    by (simp add: run_defs flags_off_def readme_params_def readme_state_def readme_heap_def)
  have a: "isPathAllowed (readme_params flags_off) ''/admin-only-route'' readme_state
            = checkRouteForRole ?g ''/admin-only-route'' readme_state"
    using short_circuit_conjunction
      [of ?g "''/admin-only-route''" flags_off ?c readme_state] r1
    by (simp add: Let_def ip)
  have b: "isPathAllowed (readme_params flags_off) ''/beta-route'' readme_state
            = checkRouteForFeatureFlag flags_off ?g ''/beta-route''
                (snd (checkRouteForRole ?g ''/beta-route'' readme_state))"
    using short_circuit_conjunction
      [of ?g "''/beta-route''" flags_off ?c readme_state] r2 f2
    by (simp add: Let_def ip)
  have c: "fst (isPathAllowed (readme_params flags_off) ''/special-route'' readme_state)
            = Inr (Bool True)"
    using short_circuit_conjunction
      [of ?g "''/special-route''" flags_off ?c readme_state] r3 f3 s3
    by (simp add: Let_def ip)
  show ?thesis using a b c r1 f2 by simp
qed

subsection \<open>Failures of the decision function\<close>

text \<open>
  Claim C8, as the code has it. \<^verbatim>\<open>isPathAllowed\<close> is the supplied decision function
  applied to the accessor and nothing more: when that function fails, \<^verbatim>\<open>isPathAllowed\<close>
  fails with the same failure, which its direct caller observes. The failure is caught
  one level up, in \<^verbatim>\<open>guardMiddleware\<close>, which prints it and answers with the rejection
  handler.
\<close>

theorem isPathAllowed_propagates_failure:
  assumes "isPathAllowedWithGetApplicationGuardedRoutes P (getApplicationGuardedRoutes P) path s
             = (Inl e, s')"
  shows "isPathAllowed P path s = (Inl e, s') \<and>
         guardMiddleware P \<lparr>nextUrl = url\<lparr>pathname := path\<rparr>\<rparr> response s =
           middlewareReject P (getApplicationGuardedRoutes P) (url\<lparr>pathname := path\<rparr>)
             (s'\<lparr>console := console s' @ [e]\<rparr>)"
  using assms by (simp add: isPathAllowed_def guardMiddleware_def)

text \<open>
  With the initial value that leaves out \<^verbatim>\<open>specialChecksRoutes\<close>, the special check of
  the README reads a property of \<^verbatim>\<open>undefined\<close>: \<^verbatim>\<open>isPathAllowed("/public")\<close> fails with
  that \<open>TypeError\<close>, and \<^verbatim>\<open>guardMiddleware\<close> answers with the rejection handler.
\<close>

theorem isPathAllowed_propagates_failure_witness:
  "fst (isPathAllowed unset_params ''/public'' unset_state) = Inl TypeError \<and>
   fst (guardMiddleware unset_params (request_for ''/public'') ''page'' unset_state)
     = Inr ''rejected /public''"
proof -
  let ?r = "isPathAllowedWithGetApplicationGuardedRoutes unset_params
              (getApplicationGuardedRoutes unset_params) ''/public'' unset_state"
  have "fst ?r = Inl TypeError"
    by (simp add: run_defs flags_off_def unset_params_def unset_state_def unset_heap_def)
  then have "?r = (Inl TypeError, snd ?r)"
    by (simp only: outcome_with_state)
  from isPathAllowed_propagates_failure [OF this,
      of "\<lparr>pathname = [], searchParams = [], host = ''localhost'', protocol = ''http:''\<rparr>"
         "''page''"]
  show ?thesis
    by (simp add: request_for_def unset_params_def)
qed

text \<open>
  Claim C8 as stated fails: in that configuration a direct caller of \<^verbatim>\<open>isPathAllowed\<close>
  observes the failure of the special check.
\<close>

theorem isPathAllowed_failure_counterexample:
  "fst (isPathAllowed unset_params ''/public'' unset_state) = Inl TypeError"
  by (simp add: run_defs flags_off_def unset_params_def unset_state_def unset_heap_def)

section \<open>The boundary adapter\<close>

text \<open>
  Claim C1. When the decision function resolves to a truthy value, \<^verbatim>\<open>guardMiddleware\<close>
  returns the response it was given. When it resolves to a falsy value, or fails, the
  result of \<^verbatim>\<open>guardMiddleware\<close> is the result of the rejection handler applied to the
  accessor and \<^verbatim>\<open>request.nextUrl\<close>; the failure is printed and goes no further.
\<close>

theorem guardMiddleware_contract:
  "(isPathAllowed P (pathname (nextUrl req)) s = (Inr v, s') \<and> truthy v \<longrightarrow>
      guardMiddleware P req response s = (Inr response, s')) \<and>
   (isPathAllowed P (pathname (nextUrl req)) s = (Inr v, s') \<and> \<not> truthy v \<longrightarrow>
      guardMiddleware P req response s =
        middlewareReject P (getApplicationGuardedRoutes P) (nextUrl req) s') \<and>
   (isPathAllowed P (pathname (nextUrl req)) s = (Inl e, s') \<longrightarrow>
      guardMiddleware P req response s =
        middlewareReject P (getApplicationGuardedRoutes P) (nextUrl req)
          (s'\<lparr>console := console s' @ [e]\<rparr>))"
  by (simp add: guardMiddleware_def)

text \<open>
  In the README configuration with a flag service that fails: \<^verbatim>\<open>/special-route\<close> is
  allowed and passes through, \<^verbatim>\<open>/admin-only-route\<close> is denied and rejected,
  \<^verbatim>\<open>/beta-route\<close> makes the flag service fail and is rejected, with the failure on the
  console.
\<close>

theorem guardMiddleware_contract_witness:
  "fst (guardMiddleware (readme_params flags_down) (request_for ''/special-route'') ''page''
          readme_state) = Inr ''page'' \<and>
   fst (guardMiddleware (readme_params flags_down) (request_for ''/admin-only-route'') ''page''
          readme_state) = Inr ''rejected /admin-only-route'' \<and>
   fst (guardMiddleware (readme_params flags_down) (request_for ''/beta-route'') ''page''
          readme_state) = Inr ''rejected /beta-route'' \<and>
   console (snd (guardMiddleware (readme_params flags_down) (request_for ''/beta-route'')
          ''page'' readme_state)) = [Thrown (Str ''flag service down'')]"
proof -
  let ?P = "readme_params flags_down"
  let ?run = "\<lambda>p. isPathAllowed ?P (pathname (nextUrl (request_for p))) readme_state"
  have "fst (?run ''/special-route'') = Inr (Bool True)"
    by (simp add: run_defs request_for_def readme_params_def readme_state_def readme_heap_def)
  then have a: "?run ''/special-route'' = (Inr (Bool True), snd (?run ''/special-route''))"
    by (simp only: outcome_with_state)
  have "fst (?run ''/admin-only-route'') = Inr (Bool False)"
    by (simp add: run_defs request_for_def readme_params_def readme_state_def readme_heap_def)
  then have b: "?run ''/admin-only-route''
                  = (Inr (Bool False), snd (?run ''/admin-only-route''))"
    by (simp only: outcome_with_state)
  have "fst (?run ''/beta-route'') = Inl (Thrown (Str ''flag service down''))"
    by (simp add: run_defs flags_down_def request_for_def readme_params_def readme_state_def
        readme_heap_def)
  then have c: "?run ''/beta-route''
                  = (Inl (Thrown (Str ''flag service down'')), snd (?run ''/beta-route''))"
    by (simp only: outcome_with_state)
  have cc: "console (snd (?run ''/beta-route'')) = []"
    by (simp add: run_defs flags_down_def request_for_def readme_params_def readme_state_def
        readme_heap_def)
  have "fst (guardMiddleware ?P (request_for ''/special-route'') ''page'' readme_state)
          = Inr ''page''"
    using guardMiddleware_contract
      [of ?P "request_for ''/special-route''" readme_state "Bool True"
          "snd (?run ''/special-route'')" "''page''"] a
    by simp
  moreover
  have rej: "\<And>p s. middlewareReject ?P (getApplicationGuardedRoutes ?P) (nextUrl (request_for p)) s
          = (Inr (''rejected '' @ p), s)"
    by (simp add: readme_params_def request_for_def)
  have "fst (guardMiddleware ?P (request_for ''/admin-only-route'') ''page'' readme_state)
          = Inr ''rejected /admin-only-route''"
    using guardMiddleware_contract
      [of ?P "request_for ''/admin-only-route''" readme_state "Bool False"
          "snd (?run ''/admin-only-route'')" "''page''"] b
    by (simp add: rej)
  moreover
  have "guardMiddleware ?P (request_for ''/beta-route'') ''page'' readme_state
          = (Inr ''rejected /beta-route'',
             (snd (?run ''/beta-route''))\<lparr>console := console (snd (?run ''/beta-route''))
                @ [Thrown (Str ''flag service down'')]\<rparr>)"
    using guardMiddleware_contract
      [of ?P "request_for ''/beta-route''" readme_state _ "snd (?run ''/beta-route'')" _
          "Thrown (Str ''flag service down'')"] c
    by (simp add: rej)
  ultimately show ?thesis using cc by simp
qed

section \<open>What the merger writes\<close>

subsection \<open>The store outside the accumulator\<close>

lemma only_writes_refl: "only_writes a s s"
  by (simp add: only_writes_def)

lemma only_writes_trans:
  "only_writes a s t \<Longrightarrow> only_writes a t u \<Longrightarrow> only_writes a s u"
  by (auto simp: only_writes_def)

lemma assign_new_heap:
  "heap (assign_new acc accProps key ob s)
     = ((heap s) @ [ob])[acc := Obj (set_prop accProps key (Ref (length (heap s))))]"
  by (simp add: assign_new_def alloc_def)

lemma assign_new_other:
  "mergedApplicationGuardedRoutes (assign_new acc accProps key ob s)
     = mergedApplicationGuardedRoutes s"
  "console (assign_new acc accProps key ob s) = console s"
  by (simp_all add: assign_new_def alloc_def)

lemma assign_new_only_writes: "only_writes acc s (assign_new acc accProps key ob s)"
  by (auto simp: only_writes_def assign_new_heap nth_append)

lemma read_obj_props_at: "read_obj h a = Inr ps \<Longrightarrow> props_at h a = ps"
  by (auto simp: read_obj_def props_at_def split: option.splits obj.splits)

text \<open>The four possible results of one step of the loop.\<close>

lemma mergeKey_cases:
  obtains
    (fail) e where "mergeKey acc cur key s = (Inl e, s)"
  | (skip) "mergeKey acc cur key s = (Inr (), s)"
      "read_obj (heap s) acc = Inr (props_at (heap s) acc)"
      "read_obj (heap s) cur = Inr (props_at (heap s) cur)"
      "\<not> isArray (heap s) (get_prop (props_at (heap s) acc) key)"
      "\<not> truthy (get_prop (props_at (heap s) cur) key)"
  | (concat) xs ys where
      "mergeKey acc cur key s
         = (Inr (), assign_new acc (props_at (heap s) acc) key (Arr (xs @ ys)) s)"
      "read_obj (heap s) acc = Inr (props_at (heap s) acc)"
      "read_obj (heap s) cur = Inr (props_at (heap s) cur)"
      "isArray (heap s) (get_prop (props_at (heap s) acc) key)"
      "spread_elements (heap s) (get_prop (props_at (heap s) acc) key) = Inr xs"
      "spread_elements (heap s) (get_prop (props_at (heap s) cur) key) = Inr ys"
      "\<not> sets_prototype (props_at (heap s) acc) key"
  | (merge) ps qs where
      "mergeKey acc cur key s
         = (Inr (), assign_new acc (props_at (heap s) acc) key (Obj (obj_literal (ps @ qs))) s)"
      "read_obj (heap s) acc = Inr (props_at (heap s) acc)"
      "read_obj (heap s) cur = Inr (props_at (heap s) cur)"
      "\<not> isArray (heap s) (get_prop (props_at (heap s) acc) key)"
      "truthy (get_prop (props_at (heap s) cur) key)"
      "spread_props (heap s) (get_prop (props_at (heap s) acc) key) = Inr ps"
      "spread_props (heap s) (get_prop (props_at (heap s) cur) key) = Inr qs"
      "\<not> sets_prototype (props_at (heap s) acc) key"
proof (cases "read_obj (heap s) acc")
  case (Inl e)
  then show ?thesis using fail by (simp add: mergeKey_def)
next
  case accR: (Inr accProps)
  then have pa: "props_at (heap s) acc = accProps" by (rule read_obj_props_at)
  show ?thesis
  proof (cases "read_obj (heap s) cur")
    case (Inl e)
    with accR show ?thesis using fail by (simp add: mergeKey_def)
  next
    case curR: (Inr curProps)
    then have pc: "props_at (heap s) cur = curProps" by (rule read_obj_props_at)
    show ?thesis
    proof (cases "isArray (heap s) (get_prop accProps key)")
      case arr: True
      show ?thesis
      proof (cases "spread_elements (heap s) (get_prop accProps key)")
        case (Inl e)
        with accR curR arr show ?thesis using fail by (simp add: mergeKey_def)
      next
        case xs: (Inr xs)
        show ?thesis
        proof (cases "spread_elements (heap s) (get_prop curProps key)")
          case (Inl e)
          with accR curR arr xs show ?thesis using fail by (simp add: mergeKey_def)
        next
          case ys: (Inr ys)
          show ?thesis
          proof (cases "sets_prototype accProps key")
            case True
            with accR curR arr xs ys show ?thesis
              using fail by (simp add: mergeKey_def assign_def)
          next
            case False
            then show ?thesis
              using concat [of xs ys] accR curR arr xs ys pa pc
              by (simp add: mergeKey_def assign_def)
          qed
        qed
      qed
    next
      case narr: False
      show ?thesis
      proof (cases "truthy (get_prop curProps key)")
        case False
        with accR curR narr pa pc show ?thesis using skip by (simp add: mergeKey_def)
      next
        case tr: True
        show ?thesis
        proof (cases "spread_props (heap s) (get_prop accProps key)")
          case (Inl e)
          with accR curR narr tr show ?thesis using fail by (simp add: mergeKey_def)
        next
          case ps: (Inr ps)
          show ?thesis
          proof (cases "spread_props (heap s) (get_prop curProps key)")
            case (Inl e)
            with accR curR narr tr ps show ?thesis using fail by (simp add: mergeKey_def)
          next
            case qs: (Inr qs)
            show ?thesis
            proof (cases "sets_prototype accProps key")
              case True
              with accR curR narr tr ps qs show ?thesis
                using fail by (simp add: mergeKey_def assign_def)
            next
              case False
              then show ?thesis
                using merge [of ps qs] accR curR narr tr ps qs pa pc
                by (simp add: mergeKey_def assign_def)
            qed
          qed
        qed
      qed
    qed
  qed
qed

lemma mergeKey_only_writes: "only_writes acc s (snd (mergeKey acc cur key s))"
  by (cases acc cur key s rule: mergeKey_cases)
     (simp_all add: only_writes_refl assign_new_only_writes)

lemma mergeKey_other:
  "mergedApplicationGuardedRoutes (snd (mergeKey acc cur key s))
     = mergedApplicationGuardedRoutes s"
  "console (snd (mergeKey acc cur key s)) = console s"
  by (cases acc cur key s rule: mergeKey_cases; simp add: assign_new_other)+

lemma forIn_only_writes: "only_writes acc s (snd (forIn acc cur keys s))"
proof (induction keys arbitrary: s)
  case Nil
  then show ?case by (simp add: only_writes_refl)
next
  case (Cons key keys)
  obtain r s' where m: "mergeKey acc cur key s = (r, s')" by (cases "mergeKey acc cur key s")
  have w: "only_writes acc s s'" using mergeKey_only_writes [of acc s cur key] m by simp
  show ?case
  proof (cases r)
    case (Inl e)
    with m w show ?thesis by simp
  next
    case (Inr u)
    with m have "snd (forIn acc cur (key # keys) s) = snd (forIn acc cur keys s')" by simp
    with w Cons [of s'] show ?thesis by (auto intro: only_writes_trans)
  qed
qed

lemma forIn_other:
  "mergedApplicationGuardedRoutes (snd (forIn acc cur keys s))
     = mergedApplicationGuardedRoutes s \<and>
   console (snd (forIn acc cur keys s)) = console s"
proof (induction keys arbitrary: s)
  case Nil
  then show ?case by simp
next
  case (Cons key keys)
  obtain r s' where m: "mergeKey acc cur key s = (r, s')" by (cases "mergeKey acc cur key s")
  have o: "mergedApplicationGuardedRoutes s' = mergedApplicationGuardedRoutes s"
          "console s' = console s"
    using mergeKey_other [of acc cur key s] m by simp_all
  show ?case
  proof (cases r)
    case (Inl e)
    with m o show ?thesis by simp
  next
    case (Inr u)
    with m o Cons [of s'] show ?thesis by simp
  qed
qed

lemma reducer_only_writes: "only_writes acc s (snd (reducer acc cur s))"
proof (cases "read_obj (heap s) cur")
  case (Inl e)
  then show ?thesis by (simp add: reducer_def only_writes_refl)
next
  case (Inr ps)
  then show ?thesis
    using forIn_only_writes [of acc s cur "map fst ps"]
    by (auto simp: reducer_def split: sum.splits prod.splits)
qed

lemma reducer_other:
  "mergedApplicationGuardedRoutes (snd (reducer acc cur s))
     = mergedApplicationGuardedRoutes s \<and>
   console (snd (reducer acc cur s)) = console s"
proof (cases "read_obj (heap s) cur")
  case (Inl e)
  then show ?thesis by (simp add: reducer_def)
next
  case (Inr ps)
  then show ?thesis
    using forIn_other [of acc cur "map fst ps" s]
    by (auto simp: reducer_def split: sum.splits prod.splits)
qed

lemma reducer_result: "reducer acc cur s = (Inr a, s') \<Longrightarrow> a = acc"
  by (auto simp: reducer_def split: sum.splits prod.splits)


lemma reduce_only_writes: "only_writes acc s (snd (reduce fs acc s))"
proof (induction fs arbitrary: s)
  case Nil
  then show ?case by (simp add: only_writes_refl)
next
  case (Cons f fs)
  obtain r s' where m: "reducer acc f s = (r, s')" by (cases "reducer acc f s")
  have w: "only_writes acc s s'" using reducer_only_writes [of acc s f] m by simp
  show ?case
  proof (cases r)
    case (Inl e)
    with m w show ?thesis by simp
  next
    case (Inr a)
    with m have "a = acc" by (auto dest: reducer_result)
    with m Inr have "snd (reduce (f # fs) acc s) = snd (reduce fs acc s')" by simp
    with w Cons [of s'] show ?thesis by (auto intro: only_writes_trans)
  qed
qed

lemma reduce_other:
  "mergedApplicationGuardedRoutes (snd (reduce fs acc s))
     = mergedApplicationGuardedRoutes s \<and>
   console (snd (reduce fs acc s)) = console s"
proof (induction fs arbitrary: s)
  case Nil
  then show ?case by simp
next
  case (Cons f fs)
  obtain r s' where m: "reducer acc f s = (r, s')" by (cases "reducer acc f s")
  have o: "mergedApplicationGuardedRoutes s' = mergedApplicationGuardedRoutes s"
          "console s' = console s"
    using reducer_other [of acc f s] m by simp_all
  show ?case
  proof (cases r)
    case (Inl e)
    with m o show ?thesis by simp
  next
    case (Inr a)
    with m have "a = acc" by (auto dest: reducer_result)
    with m Inr o Cons [of s'] show ?thesis by simp
  qed
qed

lemma accessor_only_writes:
  "only_writes (initValue P) s (snd (getApplicationGuardedRoutes P s))"
proof (cases "mergedApplicationGuardedRoutes s")
  case (Some a)
  then show ?thesis by (simp add: getApplicationGuardedRoutes_def only_writes_refl)
next
  case None
  have "only_writes (initValue P) s
          (snd (reduce (applicationGuardedRoutes P) (initValue P) s))"
    by (rule reduce_only_writes)
  with None show ?thesis
    by (auto simp: getApplicationGuardedRoutes_def only_writes_def split: sum.splits prod.splits)
qed



lemma checkRouteForRole_state: "snd (checkRouteForRole g p s) = snd (g s)"
  by (simp add: checkRouteForRole_def split: prod.splits sum.splits)

lemma checkRouteForFeatureFlag_only_writes:
  assumes "\<And>u. only_writes a u (snd (g u))"
    and "\<And>v u. only_writes a u (snd (getFlags v u))"
  shows "only_writes a s (snd (checkRouteForFeatureFlag getFlags g p s))"
proof -
  have g: "only_writes a s (snd (g s))" by (rule assms(1))
  have "snd (checkRouteForFeatureFlag getFlags g p s) = snd (g s) \<or>
        (\<exists>v. snd (checkRouteForFeatureFlag getFlags g p s) = snd (getFlags v (snd (g s))))"
    by (auto simp: checkRouteForFeatureFlag_def split: prod.splits sum.splits)
  then show ?thesis
    using g assms(2) [of "snd (g s)"] by (auto intro: only_writes_trans)
qed

lemma checkRouteForSpecialChecks_only_writes:
  assumes "\<And>u. only_writes a u (snd (g u))"
    and "\<And>f u. only_writes a u (snd (callFun f u))"
  shows "only_writes a s (snd (checkRouteForSpecialChecks callFun g p s))"
proof -
  have g: "only_writes a s (snd (g s))" by (rule assms(1))
  have "snd (checkRouteForSpecialChecks callFun g p s) = snd (g s) \<or>
        (\<exists>f. snd (checkRouteForSpecialChecks callFun g p s) = snd (callFun f (snd (g s))))"
    by (auto simp: checkRouteForSpecialChecks_def split: prod.splits sum.splits val.splits)
  then show ?thesis
    using g assms(2) [of "snd (g s)"] by (auto intro: only_writes_trans)
qed

lemma andAwait_only_writes:
  assumes "\<And>u. only_writes a u (snd (p u))" and "\<And>u. only_writes a u (snd (q u))"
  shows "only_writes a s (snd (andAwait p q s))"
proof -
  have "snd (andAwait p q s) = snd (p s) \<or> snd (andAwait p q s) = snd (q (snd (p s)))"
    by (auto simp: andAwait_def split: prod.splits sum.splits)
  then show ?thesis
    using assms(1) [of s] assms(2) [of "snd (p s)"] by (auto intro: only_writes_trans)
qed

lemma readme_only_writes:
  assumes g: "\<And>u. only_writes a u (snd (g u))"
    and fl: "\<And>v u. only_writes a u (snd (getFlags v u))"
    and cf: "\<And>f u. only_writes a u (snd (callFun f u))"
  shows "only_writes a s
           (snd (isPathAllowedWithGetApplicationGuardedRoutes_readme getFlags callFun g p s))"
  unfolding isPathAllowedWithGetApplicationGuardedRoutes_readme_def
  by (intro andAwait_only_writes checkRouteForFeatureFlag_only_writes
        checkRouteForSpecialChecks_only_writes g fl cf)
     (simp add: checkRouteForRole_state g)

lemma only_writes_console:
  "only_writes a s t \<Longrightarrow> only_writes a s (t\<lparr>console := c\<rparr>)"
  by (simp add: only_writes_def)

lemma only_writes_console_start:
  "only_writes a (t\<lparr>console := c\<rparr>) u \<Longrightarrow> only_writes a t u"
  by (simp add: only_writes_def)

subsection \<open>No mutation of the fragments\<close>

text \<open>
  Claim C10, as the code has it. The accessor writes to one object that it was given:
  the one at \<open>initValue\<close>, which is the accumulator of the \<^verbatim>\<open>reduce\<close> and becomes the
  merged configuration. Every other object that was in the store, the fragments among
  them, is left as it was; the accessor caches its result when it returns one, and once
  the cache is set a call changes nothing at all. \<^verbatim>\<open>isPathAllowed\<close> and \<^verbatim>\<open>guardMiddleware\<close>
  write nothing of their own: if the supplied decision function and rejection handler
  write only what the accessor they are given writes, so do they.
\<close>

theorem accessor_writes_only_initValue:
  "only_writes (initValue P) s (snd (getApplicationGuardedRoutes P s)) \<and>
   (\<forall>a. fst (getApplicationGuardedRoutes P s) = Inr a \<longrightarrow>
        mergedApplicationGuardedRoutes (snd (getApplicationGuardedRoutes P s)) = Some a) \<and>
   (mergedApplicationGuardedRoutes s \<noteq> None \<longrightarrow> snd (getApplicationGuardedRoutes P s) = s) \<and>
   ((\<forall>g p t. (\<forall>u. only_writes (initValue P) u (snd (g u))) \<longrightarrow>
        only_writes (initValue P) t
          (snd (isPathAllowedWithGetApplicationGuardedRoutes P g p t))) \<longrightarrow>
      only_writes (initValue P) s (snd (isPathAllowed P path s)) \<and>
      ((\<forall>g url t. (\<forall>u. only_writes (initValue P) u (snd (g u))) \<longrightarrow>
           only_writes (initValue P) t (snd (middlewareReject P g url t))) \<longrightarrow>
         only_writes (initValue P) s (snd (guardMiddleware P req response s))))"
proof (intro conjI allI impI)
  show "only_writes (initValue P) s (snd (getApplicationGuardedRoutes P s))"
    by (rule accessor_only_writes)
next
  fix a assume "fst (getApplicationGuardedRoutes P s) = Inr a"
  then show "mergedApplicationGuardedRoutes (snd (getApplicationGuardedRoutes P s)) = Some a"
    by (auto simp: getApplicationGuardedRoutes_def split: option.splits sum.splits prod.splits)
next
  assume "mergedApplicationGuardedRoutes s \<noteq> None"
  then show "snd (getApplicationGuardedRoutes P s) = s"
    by (auto simp: getApplicationGuardedRoutes_def)
next
  assume d: "\<forall>g p t. (\<forall>u. only_writes (initValue P) u (snd (g u))) \<longrightarrow>
        only_writes (initValue P) t
          (snd (isPathAllowedWithGetApplicationGuardedRoutes P g p t))"
  show ip: "only_writes (initValue P) s (snd (isPathAllowed P path s))"
    unfolding isPathAllowed_def using d accessor_only_writes by blast
  assume r: "\<forall>g url t. (\<forall>u. only_writes (initValue P) u (snd (g u))) \<longrightarrow>
           only_writes (initValue P) t (snd (middlewareReject P g url t))"
  have rej: "\<And>t. only_writes (initValue P) t
      (snd (middlewareReject P (getApplicationGuardedRoutes P) (nextUrl req) t))"
    using r accessor_only_writes by blast
  obtain x s' where run: "isPathAllowed P (pathname (nextUrl req)) s = (x, s')"
    by (cases "isPathAllowed P (pathname (nextUrl req)) s")
  have w: "only_writes (initValue P) s s'"
    using d accessor_only_writes [of P] run unfolding isPathAllowed_def
    by (metis snd_conv)
  show "only_writes (initValue P) s (snd (guardMiddleware P req response s))"
  proof (cases x)
    case (Inl e)
    have "only_writes (initValue P) s' (snd (middlewareReject P (getApplicationGuardedRoutes P)
             (nextUrl req) (s'\<lparr>console := console s' @ [e]\<rparr>)))"
      using rej [of "s'\<lparr>console := console s' @ [e]\<rparr>"] by (rule only_writes_console_start)
    with w Inl run show ?thesis
      by (auto simp: guardMiddleware_def intro: only_writes_trans)
  next
    case (Inr v)
    with w run rej [of s'] show ?thesis
      by (auto simp: guardMiddleware_def intro: only_writes_trans)
  qed
qed

text \<open>
  In the README configuration the fragment \<^verbatim>\<open>safePageGuardedRoutes\<close> (address 4) is the
  same after the first access, after \<^verbatim>\<open>isPathAllowed\<close> and after \<^verbatim>\<open>guardMiddleware\<close>, and a
  second access changes nothing.
\<close>

theorem accessor_writes_only_initValue_witness:
  "heap (snd (getApplicationGuardedRoutes (readme_params flags_off) readme_state)) ! 4
     = heap readme_state ! 4 \<and>
   heap (snd (isPathAllowed (readme_params flags_off) ''/beta-route'' readme_state)) ! 4
     = heap readme_state ! 4 \<and>
   heap (snd (guardMiddleware (readme_params flags_off) (request_for ''/beta-route'') ''page''
            readme_state)) ! 4
     = heap readme_state ! 4 \<and>
   snd (getApplicationGuardedRoutes (readme_params flags_off)
          (snd (getApplicationGuardedRoutes (readme_params flags_off) readme_state)))
     = snd (getApplicationGuardedRoutes (readme_params flags_off) readme_state)"
proof -
  let ?P = "readme_params flags_off"
  let ?s1 = "snd (getApplicationGuardedRoutes ?P readme_state)"
  have init: "initValue ?P = 0" by (simp add: readme_params_def)
  have len: "length (heap readme_state) = 11" by (simp add: readme_state_def readme_heap_def)
  have dec: "\<forall>g p t. (\<forall>u. only_writes (initValue ?P) u (snd (g u))) \<longrightarrow>
        only_writes (initValue ?P) t
          (snd (isPathAllowedWithGetApplicationGuardedRoutes ?P g p t))"
    by (auto simp: readme_params_def flags_off_def only_writes_refl intro!: readme_only_writes)
  have rej: "\<forall>g url t. (\<forall>u. only_writes (initValue ?P) u (snd (g u))) \<longrightarrow>
           only_writes (initValue ?P) t (snd (middlewareReject ?P g url t))"
    by (simp add: readme_params_def only_writes_refl)
  have first: "fst (getApplicationGuardedRoutes ?P readme_state) = Inr 0"
    by (simp add: run_defs readme_params_def readme_state_def readme_heap_def)
  note thm1 = accessor_writes_only_initValue
      [of ?P readme_state "''/beta-route''" "request_for ''/beta-route''" "''page''"]
  have a: "only_writes 0 readme_state ?s1" using thm1 init by simp
  have b: "only_writes 0 readme_state (snd (isPathAllowed ?P ''/beta-route'' readme_state))"
    using thm1 dec init by simp
  have c: "only_writes 0 readme_state
             (snd (guardMiddleware ?P (request_for ''/beta-route'') ''page'' readme_state))"
    using thm1 dec rej init by simp
  have cached: "mergedApplicationGuardedRoutes ?s1 \<noteq> None"
    using thm1 first by simp
  have d: "snd (getApplicationGuardedRoutes ?P ?s1) = ?s1"
    using accessor_writes_only_initValue [of ?P ?s1] cached by simp
  show ?thesis
    using a b c d len by (simp add: only_writes_def)
qed

text \<open>
  Claim C10 as stated fails for the initial value: the first access replaces its
  categories by the merged ones and adds the category \<^verbatim>\<open>defaultRedirects\<close>.
\<close>

theorem initValue_mutated_counterexample:
  "heap readme_state ! initValue (readme_params flags_off)
     = Obj [(''roleBasedRoutes'', Ref 1), (''specialChecksRoutes'', Ref 2),
            (''featureFlaggedRoutes'', Ref 3)] \<and>
   heap (snd (getApplicationGuardedRoutes (readme_params flags_off) readme_state))
       ! initValue (readme_params flags_off)
     = Obj [(''roleBasedRoutes'', Ref 11), (''specialChecksRoutes'', Ref 13),
            (''featureFlaggedRoutes'', Ref 12), (''defaultRedirects'', Ref 14)]"
  by (simp add: run_defs readme_params_def readme_state_def readme_heap_def)

section \<open>The merge rule\<close>

subsection \<open>Property lists\<close>













subsection \<open>Index keys\<close>

lemma undec_snoc: "undec (s @ [c]) = 10 * undec s + (of_char c - 48)"
  by (simp add: undec_def)

lemma undec_dec: "undec (dec n) = n"
proof (induction n rule: dec.induct)
  case (1 n)
  show ?case
  proof (cases "n < 10")
    case True
    then have "dec n = [char_of (48 + n)]" by (subst dec.simps) simp
    with True show ?thesis by (simp add: undec_def)
  next
    case False
    then have d: "dec n = dec (n div 10) @ [char_of (48 + n mod 10)]"
      by (subst dec.simps) simp
    have "n mod 10 < 10" by simp
    then have "(48 + n mod 10) mod 256 = 48 + n mod 10" by simp
    then have "undec (dec n) = 10 * undec (dec (n div 10)) + n mod 10"
      unfolding d undec_snoc by simp
    also have "undec (dec (n div 10)) = n div 10" using 1 False by blast
    finally show ?thesis by simp
  qed
qed

lemma inj_dec: "inj dec"
  by (rule inj_on_inverseI [where g = undec]) (rule undec_dec)

lemma keys_indexed: "map fst (indexed xs) = map dec [0..<length xs]"
  by (simp add: indexed_def)

lemma distinct_indexed: "distinct (map fst (indexed xs))"
  by (simp add: keys_indexed distinct_map inj_on_subset [OF inj_dec])

lemma map_of_indexed: "i < length xs \<Longrightarrow> map_of (indexed xs) (dec i) = Some (xs ! i)"
proof (rule map_of_is_SomeI [OF distinct_indexed])
  assume i: "i < length xs"
  have "zip (map dec [0..<length xs]) xs ! i = (dec i, xs ! i)"
    using i by (simp del: dec.simps)
  moreover have "i < length (zip (map dec [0..<length xs]) xs)" using i by simp
  ultimately show "(dec i, xs ! i) \<in> set (indexed xs)"
    unfolding indexed_def by (metis nth_mem)
qed


subsection \<open>Categories\<close>




lemma category_Sequence_iff:
  "category_of h v = Sequence xs \<longleftrightarrow> (\<exists>a. v = Ref a \<and> lookup h a = Some (Arr xs))"
  by (cases v) (auto simp: category_of_def split: option.splits obj.splits)















subsection \<open>One step of the loop\<close>











subsection \<open>The loop over the keys of a fragment\<close>







subsection \<open>The fold over the fragments\<close>






section \<open>Memoization\<close>






lemma overwrite_simps [simp]:
  "heap (overwrite f ob s) = (heap s)[f := ob]"
  "mergedApplicationGuardedRoutes (overwrite f ob s) = mergedApplicationGuardedRoutes s"
  "console (overwrite f ob s) = console s"
  by (simp_all add: overwrite_def)





end
